theory Spec2Isabelle
  imports Complex_Main "HOL-Library.Sublist"
begin

section \<open>Python values, errors and HTTP responses\<close>

text \<open>
  The values that travel through \<^verbatim>\<open>client.py\<close> are decoded JSON documents
  (\<^verbatim>\<open>response.json()\<close>, the \<^verbatim>\<open>payload\<close> dictionary). A dictionary is kept
  as an association list in insertion order, which is the order Python iterates it in.
  Floating point numbers are left out: no operation below looks at one.
\<close>

datatype json =
    JNull
  | JBool bool
  | JInt int
  | JStr string
  | JList "json list"
  | JObj "(string \<times> json) list"

text \<open>
  Every exception class that an operation below can raise. \<open>MeiliSearchApiError\<close>
  carries the error code of the server's reply; \<open>KeyError\<close> carries the missing key.
\<close>

datatype error =
    MeiliSearchApiError string
  | MeiliSearchCommunicationError
  | MeiliSearchTimeoutError
  | MeiliSearchError
  | PayloadTooLarge
  | InvalidKeyError
  | InvalidRestriction
  | KeyNotFoundError
  | KeyError string
  | TypeError
  | ValidationError

record response =
  status_code :: int
  json_body :: json

text \<open>Python's truth value of a decoded JSON value (\<^verbatim>\<open>if x:\<close>, \<^verbatim>\<open>not x\<close>).\<close>

fun truthy :: "json \<Rightarrow> bool" where
  "truthy JNull = False"
| "truthy (JBool b) = b"
| "truthy (JInt i) = (i \<noteq> 0)"
| "truthy (JStr s) = (s \<noteq> [])"
| "truthy (JList xs) = (xs \<noteq> [])"
| "truthy (JObj kvs) = (kvs \<noteq> [])"

text \<open>
  \<^verbatim>\<open>for x in v\<close>: a list yields its elements, a string its characters (each a string
  of length one), a dictionary its keys; the other values are not iterable.
\<close>

fun py_iter :: "json \<Rightarrow> error + json list" where
  "py_iter (JList xs) = Inr xs"
| "py_iter (JStr s) = Inr (map (\<lambda>c. JStr [c]) s)"
| "py_iter (JObj kvs) = Inr (map (\<lambda>kv. JStr (fst kv)) kvs)"
| "py_iter JNull = Inl TypeError"
| "py_iter (JBool b) = Inl TypeError"
| "py_iter (JInt i) = Inl TypeError"

text \<open>
  \<^verbatim>\<open>v[k]\<close> with a string key: a dictionary looks the key up and raises
  \<^verbatim>\<open>KeyError\<close> when it is missing; every other value raises \<^verbatim>\<open>TypeError\<close>.
\<close>

fun subscript :: "json \<Rightarrow> string \<Rightarrow> error + json" where
  "subscript (JObj kvs) k = (case map_of kvs k of None \<Rightarrow> Inl (KeyError k) | Some v \<Rightarrow> Inr v)"
| "subscript v k = Inl TypeError"

text \<open>\<^verbatim>\<open>needle in haystack\<close> on strings: the needle occurs as a contiguous substring.\<close>

fun str_contains :: "string \<Rightarrow> string \<Rightarrow> bool" where
  "str_contains needle [] = (needle = [])"
| "str_contains needle (c # cs) = (prefix needle (c # cs) \<or> str_contains needle cs)"

text \<open>
  A list comprehension \<^verbatim>\<open>[f(x) for x in xs]\<close> whose body may raise: the first
  exception ends the comprehension.
\<close>

fun map_result :: "('a \<Rightarrow> error + 'b) \<Rightarrow> 'a list \<Rightarrow> error + 'b list" where
  "map_result f [] = Inr []"
| "map_result f (x # xs) =
     (case f x of
        Inl e \<Rightarrow> Inl e
      | Inr y \<Rightarrow> (case map_result f xs of Inl e \<Rightarrow> Inl e | Inr ys \<Rightarrow> Inr (y # ys)))"

section \<open>\<^verbatim>\<open>Client.__init__\<close>\<close>




section \<open>\<^verbatim>\<open>Client.delete_index_if_exists\<close>\<close>

text \<open>
  \<^verbatim>\<open>task.py\<close> and \<^verbatim>\<open>_http_requests.py\<close> are not among the sources, so the two
  awaited calls are parameters: \<open>http_delete\<close> is \<^verbatim>\<open>self._http_requests.delete\<close>,
  which returns the response or raises, and \<open>wait_for_task\<close> returns the task's
  status record or raises. The result is paired with the calls made, in order.
\<close>

record task_status =
  status :: string

datatype call = HttpDelete string | WaitForTask json

definition delete_index_if_exists ::
  "(string \<Rightarrow> error + response) \<Rightarrow> (json \<Rightarrow> error + task_status) \<Rightarrow> string
     \<Rightarrow> (error + bool) \<times> call list" where
  "delete_index_if_exists http_delete wait_for_task uid =
     (let url = ''indexes/'' @ uid in
      case http_delete url of
        Inl e \<Rightarrow> (Inl e, [HttpDelete url])
      | Inr resp \<Rightarrow>
          (case subscript (json_body resp) ''uid'' of
             Inl e \<Rightarrow> (Inl e, [HttpDelete url])
           | Inr task_id \<Rightarrow>
               (case wait_for_task task_id of
                  Inl e \<Rightarrow> (Inl e, [HttpDelete url, WaitForTask task_id])
                | Inr st \<Rightarrow>
                    (Inr (status st = ''succeeded''), [HttpDelete url, WaitForTask task_id]))))"

section \<open>\<^verbatim>\<open>Client.generate_tenant_token\<close>\<close>

text \<open>
  The fields of \<^verbatim>\<open>Key\<close> that the method reads. The model class itself
  (\<^verbatim>\<open>models/client.py\<close>) is not among the sources; an instance of it is always true
  in \<^verbatim>\<open>if not key\<close>, so only \<^verbatim>\<open>None\<close> takes the first branch.
\<close>

record api_key =
  description :: string
  key :: string
  actions :: "string list"
  indexes :: "string list"

text \<open>
  Lines 171 to 185: the key that signs the token. Without a \<^verbatim>\<open>key\<close> argument the
  keys are fetched (\<open>get_keys\<close> is the outcome of \<^verbatim>\<open>await self.get_keys()\<close>) and the
  first one whose description contains the marker is taken.
\<close>

definition select_jwt_key :: "(error + api_key list) \<Rightarrow> api_key option \<Rightarrow> error + api_key" where
  "select_jwt_key get_keys k =
     (case k of
        None \<Rightarrow>
          (case get_keys of
             Inl e \<Rightarrow> Inl e
           | Inr keys \<Rightarrow>
               (case find (\<lambda>x. str_contains ''Default Search API Key'' (description x)) keys of
                  None \<Rightarrow> Inl KeyNotFoundError
                | Some jwt_key \<Rightarrow> Inr jwt_key))
      | Some given \<Rightarrow>
          if actions given \<noteq> [''search''] then Inl InvalidKeyError else Inr given)"

text \<open>
  Lines 187 to 192: every entry of \<^verbatim>\<open>payload["indexes"]\<close> must be one of the key's
  indexes. The key's indexes are strings, so an entry that is not a string is never
  among them.
\<close>

fun check_indexes :: "json list \<Rightarrow> string list \<Rightarrow> error + unit" where
  "check_indexes [] allowed = Inr ()"
| "check_indexes (i # rest) allowed =
     (if i \<notin> set (map JStr allowed) then Inl InvalidRestriction
      else check_indexes rest allowed)"

definition check_payload :: "(string \<times> json) list \<Rightarrow> api_key \<Rightarrow> error + unit" where
  "check_payload payload jwt_key =
     (case map_of payload ''indexes'' of
        None \<Rightarrow> Inr ()
      | Some v \<Rightarrow>
          if truthy v then
            (case py_iter v of
               Inl e \<Rightarrow> Inl e
             | Inr entries \<Rightarrow> check_indexes entries (indexes jwt_key))
          else Inr ())"

text \<open>
  \<open>jwt_encode\<close> is \<^verbatim>\<open>jwt.encode(payload, secret, algorithm="HS256")\<close> of the PyJWT
  library, which returns the token or raises.
\<close>

definition generate_tenant_token ::
  "((string \<times> json) list \<Rightarrow> string \<Rightarrow> error + string) \<Rightarrow> (error + api_key list)
     \<Rightarrow> (string \<times> json) list \<Rightarrow> api_key option \<Rightarrow> error + string" where
  "generate_tenant_token jwt_encode get_keys payload k =
     (case select_jwt_key get_keys k of
        Inl e \<Rightarrow> Inl e
      | Inr jwt_key \<Rightarrow>
          (case check_payload payload jwt_key of
             Inl e \<Rightarrow> Inl e
           | Inr u \<Rightarrow> jwt_encode payload (key jwt_key)))"

section \<open>\<^verbatim>\<open>Client.get_indexes\<close>, \<^verbatim>\<open>get_raw_indexes\<close> and \<^verbatim>\<open>get_raw_index\<close>\<close>

text \<open>
  \<open>http_get\<close> is \<^verbatim>\<open>self._http_requests.get\<close> (it raises on an error reply),
  \<open>client_get\<close> is the bare \<^verbatim>\<open>self.http_client.get\<close> (it returns every reply).
  The constructors \<^verbatim>\<open>Index(...)\<close> and \<^verbatim>\<open>IndexInfo(**x)\<close> live in files that are not
  among the sources: \<open>mk_index\<close> and \<open>mk_index_info\<close> stand for them.
\<close>

definition index_of_json ::
  "(json \<Rightarrow> json \<Rightarrow> json \<Rightarrow> json \<Rightarrow> error + 'i) \<Rightarrow> json \<Rightarrow> error + 'i" where
  "index_of_json mk_index x =
     (case subscript x ''uid'' of
        Inl e \<Rightarrow> Inl e
      | Inr uid \<Rightarrow>
          (case subscript x ''primaryKey'' of
             Inl e \<Rightarrow> Inl e
           | Inr primary_key \<Rightarrow>
               (case subscript x ''createdAt'' of
                  Inl e \<Rightarrow> Inl e
                | Inr created_at \<Rightarrow>
                    (case subscript x ''updatedAt'' of
                       Inl e \<Rightarrow> Inl e
                     | Inr updated_at \<Rightarrow> mk_index uid primary_key created_at updated_at))))"

definition get_indexes ::
  "(string \<Rightarrow> error + response) \<Rightarrow> (json \<Rightarrow> json \<Rightarrow> json \<Rightarrow> json \<Rightarrow> error + 'i)
     \<Rightarrow> error + 'i list option" where
  "get_indexes http_get mk_index =
     (case http_get ''indexes'' of
        Inl e \<Rightarrow> Inl e
      | Inr resp \<Rightarrow>
          if \<not> truthy (json_body resp) then Inr None
          else
            (case py_iter (json_body resp) of
               Inl e \<Rightarrow> Inl e
             | Inr xs \<Rightarrow>
                 (case map_result (index_of_json mk_index) xs of
                    Inl e \<Rightarrow> Inl e
                  | Inr found \<Rightarrow> Inr (Some found))))"

definition get_raw_indexes ::
  "(string \<Rightarrow> error + response) \<Rightarrow> (json \<Rightarrow> error + 'i) \<Rightarrow> error + 'i list option" where
  "get_raw_indexes http_get mk_index_info =
     (case http_get ''indexes'' of
        Inl e \<Rightarrow> Inl e
      | Inr resp \<Rightarrow>
          if \<not> truthy (json_body resp) then Inr None
          else
            (case py_iter (json_body resp) of
               Inl e \<Rightarrow> Inl e
             | Inr xs \<Rightarrow>
                 (case map_result mk_index_info xs of
                    Inl e \<Rightarrow> Inl e
                  | Inr found \<Rightarrow> Inr (Some found))))"

definition get_raw_index ::
  "(string \<Rightarrow> error + response) \<Rightarrow> (json \<Rightarrow> error + 'i) \<Rightarrow> string \<Rightarrow> error + 'i option" where
  "get_raw_index client_get mk_index_info uid =
     (case client_get (''indexes/'' @ uid) of
        Inl e \<Rightarrow> Inl e
      | Inr resp \<Rightarrow>
          if status_code resp = 404 then Inr None
          else
            (case mk_index_info (json_body resp) of
               Inl e \<Rightarrow> Inl e
             | Inr info \<Rightarrow> Inr (Some info)))"

section \<open>Document batching\<close>

text \<open>
  Modelled from the spec: \<^verbatim>\<open>index.py\<close>, which holds the batching helper and the
  document operations built on it, is not among the sources; only their tests are. The
  spec describes the helper for a fixed item count as slicing the document list into
  fixed-size groups: an ordered sequence of contiguous sub-sequences that covers the
  input exactly once, none longer than the count. The spec says nothing about a count
  of zero, for which no such slicing of a non-empty list exists: the model has no
  result there.
\<close>

function slices :: "nat \<Rightarrow> 'a list \<Rightarrow> 'a list list" where
  "slices n xs = (if n = 0 \<or> xs = [] then [] else take n xs # slices n (drop n xs))"
  by pat_completeness auto
termination
  by (relation "measure (\<lambda>(n, xs). length xs)") auto

text \<open>
  Modelled from the spec: the batching helper of \<^verbatim>\<open>index.py\<close> for a fixed item
  count, which is \<open>slices\<close> for a positive count.
\<close>

definition batch :: "'a list \<Rightarrow> nat \<Rightarrow> 'a list list option" where
  "batch documents batch_size =
     (if batch_size = 0 then None else Some (slices batch_size documents))"

text \<open>
  Modelled from the spec: the chunks are replayed against the server one request per
  chunk, in order, and an error of a request goes to the caller with no retry. \<open>send\<close>
  is the request of one chunk (adding or updating documents); the result is paired with
  the chunks that were sent.
\<close>

fun send_all :: "('a list \<Rightarrow> error + 'r) \<Rightarrow> 'a list list \<Rightarrow> (error + 'r list) \<times> 'a list list" where
  "send_all send [] = (Inr [], [])"
| "send_all send (c # cs) =
     (case send c of
        Inl e \<Rightarrow> (Inl e, [c])
      | Inr r \<Rightarrow>
          (case send_all send cs of
             (Inl e, sent) \<Rightarrow> (Inl e, c # sent)
           | (Inr rs, sent) \<Rightarrow> (Inr (r # rs), c # sent)))"

text \<open>
  Modelled from the spec: \<^verbatim>\<open>add_documents_in_batches\<close> and
  \<^verbatim>\<open>update_documents_in_batches\<close> differ in the request they send only, so one
  definition with the request as a parameter stands for both.
\<close>

definition documents_in_batches ::
  "('a list \<Rightarrow> error + 'r) \<Rightarrow> 'a list \<Rightarrow> nat \<Rightarrow> ((error + 'r list) \<times> 'a list list) option" where
  "documents_in_batches send documents batch_size =
     (case batch documents batch_size of
        None \<Rightarrow> None
      | Some chunks \<Rightarrow> Some (send_all send chunks))"

text \<open>
  Modelled from the spec: the \<^verbatim>\<open>*_from_file_in_batches\<close> operations read the
  documents of a file first (\<open>load\<close> is the outcome of reading it, a local failure
  included) and batch them as above.
\<close>

definition documents_from_file_in_batches ::
  "('a list \<Rightarrow> error + 'r) \<Rightarrow> (error + 'a list) \<Rightarrow> nat
     \<Rightarrow> ((error + 'r list) \<times> 'a list list) option" where
  "documents_from_file_in_batches send load batch_size =
     (case load of
        Inl e \<Rightarrow> Some (Inl e, [])
      | Inr documents \<Rightarrow> documents_in_batches send documents batch_size)"

text \<open>
  Modelled from the spec: for a maximum serialized size the helper accumulates items
  greedily until the size bound would be exceeded, then starts the next chunk, and
  raises an error as soon as it meets a single item that exceeds the bound on its own.
  \<open>ssize\<close> is the serialized size of a sequence of documents; \<open>cur\<close> is the chunk
  being accumulated.
\<close>

fun auto_batch_from :: "('a list \<Rightarrow> nat) \<Rightarrow> nat \<Rightarrow> 'a list \<Rightarrow> 'a list \<Rightarrow> error + 'a list list" where
  "auto_batch_from ssize max_payload_size cur [] = Inr (if cur = [] then [] else [cur])"
| "auto_batch_from ssize max_payload_size cur (d # ds) =
     (if max_payload_size < ssize [d] then Inl PayloadTooLarge
      else if cur = [] \<or> ssize (cur @ [d]) \<le> max_payload_size
        then auto_batch_from ssize max_payload_size (cur @ [d]) ds
      else
        (case auto_batch_from ssize max_payload_size [d] ds of
           Inl e \<Rightarrow> Inl e
         | Inr chunks \<Rightarrow> Inr (cur # chunks)))"

text \<open>
  Modelled from the spec: the batching helper of \<^verbatim>\<open>index.py\<close> for a maximum
  serialized size, which starts the accumulation with no chunk begun.
\<close>

definition auto_batch :: "('a list \<Rightarrow> nat) \<Rightarrow> 'a list \<Rightarrow> nat \<Rightarrow> error + 'a list list" where
  "auto_batch ssize documents max_payload_size = auto_batch_from ssize max_payload_size [] documents"

text \<open>
  Modelled from the spec: \<^verbatim>\<open>add_documents_auto_batch\<close> and
  \<^verbatim>\<open>update_documents_auto_batch\<close> send the chunks of the size-bounded helper, one
  request each, and the \<^verbatim>\<open>*_from_file_auto_batch\<close> operations read the file first.
\<close>

definition documents_auto_batch ::
  "('a list \<Rightarrow> nat) \<Rightarrow> ('a list \<Rightarrow> error + 'r) \<Rightarrow> 'a list \<Rightarrow> nat
     \<Rightarrow> (error + 'r list) \<times> 'a list list" where
  "documents_auto_batch ssize send documents max_payload_size =
     (case auto_batch ssize documents max_payload_size of
        Inl e \<Rightarrow> (Inl e, [])
      | Inr chunks \<Rightarrow> send_all send chunks)"

text \<open>
  Modelled from the spec: the \<^verbatim>\<open>*_from_file_auto_batch\<close> operations of
  \<^verbatim>\<open>index.py\<close>, with \<open>load\<close> the outcome of reading the file.
\<close>

definition documents_from_file_auto_batch ::
  "('a list \<Rightarrow> nat) \<Rightarrow> ('a list \<Rightarrow> error + 'r) \<Rightarrow> (error + 'a list) \<Rightarrow> nat
     \<Rightarrow> (error + 'r list) \<times> 'a list list" where
  "documents_from_file_auto_batch ssize send load max_payload_size =
     (case load of
        Inl e \<Rightarrow> (Inl e, [])
      | Inr documents \<Rightarrow> documents_auto_batch ssize send documents max_payload_size)"

section \<open>Properties of \<^verbatim>\<open>client.py\<close>\<close>



text \<open>
  C8. \<^verbatim>\<open>delete_index_if_exists\<close> issues the delete request for the index, waits for
  the task named in the reply, and once that wait returns the task's final status it
  returns \<^verbatim>\<open>True\<close> if and only if the status is \<^verbatim>\<open>succeeded\<close>; for every other
  final status the result is \<^verbatim>\<open>False\<close>, not an exception.
\<close>

theorem delete_index_if_exists_result:
  assumes "http_delete (''indexes/'' @ uid) = Inr resp"
    and "subscript (json_body resp) ''uid'' = Inr task_id"
    and "wait_for_task task_id = Inr st"
  shows "delete_index_if_exists http_delete wait_for_task uid =
           (Inr (status st = ''succeeded''), [HttpDelete (''indexes/'' @ uid), WaitForTask task_id])"
  using assms by (simp add: delete_index_if_exists_def)

theorem delete_index_if_exists_result_witness:
  "delete_index_if_exists
     (\<lambda>u. Inr \<lparr>status_code = 202, json_body = JObj [(''uid'', JInt 3)]\<rparr>)
     (\<lambda>t. Inr \<lparr>status = ''failed''\<rparr>) ''movies''
   = (Inr False, [HttpDelete ''indexes/movies'', WaitForTask (JInt 3)])
   \<and> delete_index_if_exists
     (\<lambda>u. Inr \<lparr>status_code = 202, json_body = JObj [(''uid'', JInt 4)]\<rparr>)
     (\<lambda>t. Inr \<lparr>status = ''succeeded''\<rparr>) ''movies''
   = (Inr True, [HttpDelete ''indexes/movies'', WaitForTask (JInt 4)])"
  using delete_index_if_exists_result
      [of "\<lambda>u. Inr \<lparr>status_code = 202, json_body = JObj [(''uid'', JInt 3)]\<rparr>" "''movies''"
          "\<lparr>status_code = 202, json_body = JObj [(''uid'', JInt 3)]\<rparr>" "JInt 3"
          "\<lambda>t. Inr \<lparr>status = ''failed''\<rparr>" "\<lparr>status = ''failed''\<rparr>"]
    delete_index_if_exists_result
      [of "\<lambda>u. Inr \<lparr>status_code = 202, json_body = JObj [(''uid'', JInt 4)]\<rparr>" "''movies''"
          "\<lparr>status_code = 202, json_body = JObj [(''uid'', JInt 4)]\<rparr>" "JInt 4"
          "\<lambda>t. Inr \<lparr>status = ''succeeded''\<rparr>" "\<lparr>status = ''succeeded''\<rparr>"]
  by simp

lemma check_indexes_ok: "check_indexes entries allowed = Inr u \<longleftrightarrow> set entries \<subseteq> JStr ` set allowed"
  by (induction entries) auto

lemma check_indexes_error: "check_indexes entries allowed = Inl e \<Longrightarrow> e = InvalidRestriction"
  by (induction entries) (auto split: if_splits)

lemma check_indexes_bad:
  "i \<in> set entries \<Longrightarrow> i \<notin> JStr ` set allowed \<Longrightarrow> check_indexes entries allowed = Inl InvalidRestriction"
  by (induction entries) auto

text \<open>
  C9. \<^verbatim>\<open>generate_tenant_token\<close> raises \<^verbatim>\<open>InvalidKeyError\<close> whenever a key is given
  whose actions are not exactly \<^verbatim>\<open>["search"]\<close>; it raises \<^verbatim>\<open>KeyNotFoundError\<close>
  whenever no key is given and no fetched key has a description containing
  \<^verbatim>\<open>Default Search API Key\<close>; it raises \<^verbatim>\<open>InvalidRestriction\<close> whenever the
  payload's \<^verbatim>\<open>indexes\<close> holds an entry that is not among the signing key's indexes;
  and it returns a token only when every one of these checks has passed, the token
  being the payload signed with the signing key's secret.
\<close>

theorem generate_tenant_token_validation:
  "(\<forall>given. k = Some given \<longrightarrow> actions given \<noteq> [''search''] \<longrightarrow>
      generate_tenant_token jwt_encode get_keys payload k = Inl InvalidKeyError)
   \<and> (\<forall>keys. k = None \<longrightarrow> get_keys = Inr keys \<longrightarrow>
        (\<forall>x\<in>set keys. \<not> str_contains ''Default Search API Key'' (description x)) \<longrightarrow>
      generate_tenant_token jwt_encode get_keys payload k = Inl KeyNotFoundError)
   \<and> (\<forall>jwt_key entries i. select_jwt_key get_keys k = Inr jwt_key \<longrightarrow>
        map_of payload ''indexes'' = Some (JList entries) \<longrightarrow>
        i \<in> set entries \<longrightarrow> i \<notin> JStr ` set (indexes jwt_key) \<longrightarrow>
      generate_tenant_token jwt_encode get_keys payload k = Inl InvalidRestriction)
   \<and> (\<forall>token. generate_tenant_token jwt_encode get_keys payload k = Inr token \<longrightarrow>
        (\<exists>jwt_key. select_jwt_key get_keys k = Inr jwt_key
           \<and> (k \<noteq> None \<longrightarrow> k = Some jwt_key \<and> actions jwt_key = [''search''])
           \<and> (k = None \<longrightarrow> (\<exists>keys. get_keys = Inr keys \<and> jwt_key \<in> set keys
                 \<and> str_contains ''Default Search API Key'' (description jwt_key)))
           \<and> (\<forall>entries. map_of payload ''indexes'' = Some (JList entries) \<longrightarrow>
                 set entries \<subseteq> JStr ` set (indexes jwt_key))
           \<and> jwt_encode payload (key jwt_key) = Inr token))"
proof (intro conjI allI impI)
  fix given assume "k = Some given" "actions given \<noteq> [''search'']"
  then show "generate_tenant_token jwt_encode get_keys payload k = Inl InvalidKeyError"
    by (simp add: generate_tenant_token_def select_jwt_key_def)
next
  fix keys assume "k = None" "get_keys = Inr keys"
    "\<forall>x\<in>set keys. \<not> str_contains ''Default Search API Key'' (description x)"
  then have "find (\<lambda>x. str_contains ''Default Search API Key'' (description x)) keys = None"
    by (simp add: find_None_iff)
  with \<open>k = None\<close> \<open>get_keys = Inr keys\<close>
  show "generate_tenant_token jwt_encode get_keys payload k = Inl KeyNotFoundError"
    by (simp add: generate_tenant_token_def select_jwt_key_def)
next
  fix jwt_key entries i
  assume sel: "select_jwt_key get_keys k = Inr jwt_key"
    and p: "map_of payload ''indexes'' = Some (JList entries)"
    and i: "i \<in> set entries" "i \<notin> JStr ` set (indexes jwt_key)"
  from i have "check_indexes entries (indexes jwt_key) = Inl InvalidRestriction"
    by (rule check_indexes_bad)
  moreover from i have "entries \<noteq> []" by auto
  ultimately have "check_payload payload jwt_key = Inl InvalidRestriction"
    using p by (simp add: check_payload_def)
  with sel show "generate_tenant_token jwt_encode get_keys payload k = Inl InvalidRestriction"
    by (simp add: generate_tenant_token_def)
next
  fix token
  assume tok: "generate_tenant_token jwt_encode get_keys payload k = Inr token"
  then obtain jwt_key where sel: "select_jwt_key get_keys k = Inr jwt_key"
    and chk: "check_payload payload jwt_key = Inr ()"
    and enc: "jwt_encode payload (key jwt_key) = Inr token"
    by (auto simp: generate_tenant_token_def split: sum.splits)
  have a: "k \<noteq> None \<longrightarrow> k = Some jwt_key \<and> actions jwt_key = [''search'']"
    using sel by (auto simp: select_jwt_key_def split: option.splits if_splits)
  have b: "k = None \<longrightarrow> (\<exists>keys. get_keys = Inr keys \<and> jwt_key \<in> set keys
                 \<and> str_contains ''Default Search API Key'' (description jwt_key))"
    using sel by (auto simp: select_jwt_key_def find_Some_iff split: option.splits sum.splits)
  have c: "\<forall>entries. map_of payload ''indexes'' = Some (JList entries) \<longrightarrow>
                 set entries \<subseteq> JStr ` set (indexes jwt_key)"
  proof (intro allI impI)
    fix entries assume p: "map_of payload ''indexes'' = Some (JList entries)"
    show "set entries \<subseteq> JStr ` set (indexes jwt_key)"
    proof (cases "entries = []")
      case True then show ?thesis by simp
    next
      case False
      with chk p have "check_indexes entries (indexes jwt_key) = Inr ()"
        by (simp add: check_payload_def)
      then show ?thesis by (simp add: check_indexes_ok)
    qed
  qed
  from sel a b c enc
  show "\<exists>jwt_key. select_jwt_key get_keys k = Inr jwt_key
           \<and> (k \<noteq> None \<longrightarrow> k = Some jwt_key \<and> actions jwt_key = [''search''])
           \<and> (k = None \<longrightarrow> (\<exists>keys. get_keys = Inr keys \<and> jwt_key \<in> set keys
                 \<and> str_contains ''Default Search API Key'' (description jwt_key)))
           \<and> (\<forall>entries. map_of payload ''indexes'' = Some (JList entries) \<longrightarrow>
                 set entries \<subseteq> JStr ` set (indexes jwt_key))
           \<and> jwt_encode payload (key jwt_key) = Inr token"
    by blast
qed

theorem generate_tenant_token_validation_witness:
  "generate_tenant_token (\<lambda>p secret. Inr (''signed:'' @ secret)) (Inr [])
       [(''indexes'', JList [JStr ''movies''])]
       (Some \<lparr>description = ''Default Admin API Key'', key = ''k1'', actions = [''*''], indexes = [''*'']\<rparr>)
     = Inl InvalidKeyError
   \<and> generate_tenant_token (\<lambda>p secret. Inr (''signed:'' @ secret))
       (Inr [\<lparr>description = ''Default Admin API Key'', key = ''k1'', actions = [''*''], indexes = [''*'']\<rparr>])
       [(''searchRules'', JList [JStr ''*''])] None
     = Inl KeyNotFoundError
   \<and> generate_tenant_token (\<lambda>p secret. Inr (''signed:'' @ secret)) (Inr [])
       [(''indexes'', JList [JStr ''movies'', JStr ''books''])]
       (Some \<lparr>description = ''search'', key = ''k2'', actions = [''search''], indexes = [''movies'']\<rparr>)
     = Inl InvalidRestriction
   \<and> generate_tenant_token (\<lambda>p secret. Inr (''signed:'' @ secret))
       (Inr [\<lparr>description = ''Default Admin API Key'', key = ''k1'', actions = [''*''], indexes = [''*'']\<rparr>,
             \<lparr>description = ''Default Search API Key (Use it to search from the frontend)'',
                key = ''k3'', actions = [''search''], indexes = [''movies'']\<rparr>])
       [(''indexes'', JList [JStr ''movies''])] None
     = Inr ''signed:k3''"
proof -
  let ?enc = "\<lambda>(p :: (string \<times> json) list) secret. (Inr (''signed:'' @ secret) :: error + string)"
  let ?admin = "\<lparr>description = ''Default Admin API Key'', key = ''k1'', actions = [''*''], indexes = [''*'']\<rparr>"
  let ?search = "\<lparr>description = ''search'', key = ''k2'', actions = [''search''], indexes = [''movies'']\<rparr>"
  let ?default = "\<lparr>description = ''Default Search API Key (Use it to search from the frontend)'',
                key = ''k3'', actions = [''search''], indexes = [''movies'']\<rparr>"
  have a: "generate_tenant_token ?enc (Inr []) [(''indexes'', JList [JStr ''movies''])] (Some ?admin)
             = Inl InvalidKeyError"
    using generate_tenant_token_validation
      [of "Some ?admin" ?enc "Inr []" "[(''indexes'', JList [JStr ''movies''])]"]
    by simp
  have b: "generate_tenant_token ?enc (Inr [?admin]) [(''searchRules'', JList [JStr ''*''])] None
             = Inl KeyNotFoundError"
    using generate_tenant_token_validation
      [of None ?enc "Inr [?admin]" "[(''searchRules'', JList [JStr ''*''])]"]
    by simp
  have sel: "select_jwt_key (Inr []) (Some ?search) = Inr ?search"
    by (simp add: select_jwt_key_def)
  have c: "generate_tenant_token ?enc (Inr []) [(''indexes'', JList [JStr ''movies'', JStr ''books''])]
             (Some ?search) = Inl InvalidRestriction"
    using generate_tenant_token_validation
      [of "Some ?search" ?enc "Inr []" "[(''indexes'', JList [JStr ''movies'', JStr ''books''])]",
        THEN conjunct2, THEN conjunct2, THEN conjunct1, rule_format,
        of ?search "[JStr ''movies'', JStr ''books'']" "JStr ''books''"] sel
    by simp
  have d: "generate_tenant_token ?enc (Inr [?admin, ?default]) [(''indexes'', JList [JStr ''movies''])] None
             = Inr ''signed:k3''"
    by (simp add: generate_tenant_token_def select_jwt_key_def check_payload_def)
  from a b c d show ?thesis by simp
qed

lemma py_iter_truthy_nonempty: "truthy v \<Longrightarrow> py_iter v = Inr xs \<Longrightarrow> xs \<noteq> []"
  by (cases v) auto

lemma map_result_length: "map_result f xs = Inr ys \<Longrightarrow> length ys = length xs"
  by (induction xs arbitrary: ys) (auto split: sum.splits)

lemma map_result_truthy_nonempty:
  assumes "truthy v" and "py_iter v = Inr xs"
  shows "map_result f xs \<noteq> Inr []"
proof
  assume "map_result f xs = Inr []"
  then have "length xs = 0" using map_result_length by fastforce
  with py_iter_truthy_nonempty [OF assms] show False by simp
qed

lemma get_indexes_not_empty_list: "get_indexes http_get mk_index \<noteq> Inr (Some [])"
  by (auto simp: get_indexes_def map_result_truthy_nonempty split: sum.splits)

lemma get_raw_indexes_not_empty_list: "get_raw_indexes http_get mk_index_info \<noteq> Inr (Some [])"
  by (auto simp: get_raw_indexes_def map_result_truthy_nonempty split: sum.splits)

text \<open>
  C10. Absent indexes are reported as \<^verbatim>\<open>None\<close>: \<^verbatim>\<open>get_indexes\<close> and
  \<^verbatim>\<open>get_raw_indexes\<close> return \<^verbatim>\<open>None\<close> whenever the reply's body is empty (any
  body that Python takes for false), they never return the empty list, and
  \<^verbatim>\<open>get_raw_index\<close> returns \<^verbatim>\<open>None\<close> exactly when the reply has status 404.
\<close>

theorem absent_indexes_are_None:
  "(\<forall>resp. http_get ''indexes'' = Inr resp \<longrightarrow> \<not> truthy (json_body resp) \<longrightarrow>
       get_indexes http_get mk_index = Inr None
       \<and> get_raw_indexes http_get mk_index_info = Inr None)
   \<and> get_indexes http_get mk_index \<noteq> Inr (Some [])
   \<and> get_raw_indexes http_get mk_index_info \<noteq> Inr (Some [])
   \<and> (\<forall>resp. client_get (''indexes/'' @ uid) = Inr resp \<longrightarrow>
        (get_raw_index client_get mk_index_info uid = Inr None \<longleftrightarrow> status_code resp = 404))"
proof (intro conjI allI impI)
  fix resp assume "http_get ''indexes'' = Inr resp" "\<not> truthy (json_body resp)"
  then show "get_indexes http_get mk_index = Inr None"
    and "get_raw_indexes http_get mk_index_info = Inr None"
    by (simp_all add: get_indexes_def get_raw_indexes_def)
next
  show "get_indexes http_get mk_index \<noteq> Inr (Some [])"
    by (rule get_indexes_not_empty_list)
next
  show "get_raw_indexes http_get mk_index_info \<noteq> Inr (Some [])"
    by (rule get_raw_indexes_not_empty_list)
next
  fix resp assume "client_get (''indexes/'' @ uid) = Inr resp"
  then show "get_raw_index client_get mk_index_info uid = Inr None \<longleftrightarrow> status_code resp = 404"
    by (auto simp: get_raw_index_def split: sum.splits)
qed

theorem absent_indexes_are_None_witness:
  "get_indexes (\<lambda>u. Inr \<lparr>status_code = 200, json_body = JList []\<rparr>)
       (\<lambda>a b c d. Inr (a, b, c, d)) = Inr None
   \<and> get_raw_indexes (\<lambda>u. Inr \<lparr>status_code = 200, json_body = JList []\<rparr>) Inr = Inr None
   \<and> get_raw_index (\<lambda>u. Inr \<lparr>status_code = 404, json_body = JObj [(''code'', JStr ''index_not_found'')]\<rparr>)
       Inr ''movies'' = Inr None
   \<and> get_raw_index (\<lambda>u. Inr \<lparr>status_code = 200, json_body = JObj [(''uid'', JStr ''movies'')]\<rparr>)
       Inr ''movies'' \<noteq> Inr None"
  using absent_indexes_are_None
      [of "\<lambda>u. Inr \<lparr>status_code = 200, json_body = JList []\<rparr>" "\<lambda>a b c d. Inr (a, b, c, d)" Inr
          "\<lambda>u. Inr \<lparr>status_code = 404, json_body = JObj [(''code'', JStr ''index_not_found'')]\<rparr>"
          "''movies''"]
    absent_indexes_are_None
      [of "\<lambda>u. Inr \<lparr>status_code = 200, json_body = JList []\<rparr>" "\<lambda>a b c d. Inr (a, b, c, d)" Inr
          "\<lambda>u. Inr \<lparr>status_code = 200, json_body = JObj [(''uid'', JStr ''movies'')]\<rparr>"
          "''movies''"]
  by simp

section \<open>Properties of the batching helpers\<close>

declare slices.simps [simp del]

lemma slices_stop: "n = 0 \<or> xs = [] \<Longrightarrow> slices n xs = []"
  using slices.simps [of n xs] by simp

lemma slices_step: "0 < n \<Longrightarrow> xs \<noteq> [] \<Longrightarrow> slices n xs = take n xs # slices n (drop n xs)"
  using slices.simps [of n xs] by simp

lemma concat_slices: "0 < n \<Longrightarrow> concat (slices n xs) = xs"
proof (induction n xs rule: slices.induct)
  case (1 n xs)
  then show ?case
    by (cases "xs = []") (simp_all add: slices_stop slices_step)
qed

lemma slices_bounded: "c \<in> set (slices n xs) \<Longrightarrow> c \<noteq> [] \<and> length c \<le> n"
proof (induction n xs rule: slices.induct)
  case (1 n xs)
  show ?case
  proof (cases "n = 0 \<or> xs = []")
    case True
    with "1.prems" show ?thesis by (simp add: slices_stop)
  next
    case False
    with "1.prems" have "c = take n xs \<or> c \<in> set (slices n (drop n xs))"
      by (simp add: slices_step)
    then show ?thesis
    proof
      assume "c = take n xs"
      with False show ?thesis by simp
    next
      assume "c \<in> set (slices n (drop n xs))"
      with "1.IH" False show ?thesis by blast
    qed
  qed
qed

lemma length_slices: "0 < n \<Longrightarrow> length (slices n xs) = (length xs + n - 1) div n"
proof (induction n xs rule: slices.induct)
  case (1 n xs)
  show ?case
  proof (cases "xs = []")
    case True
    with "1.prems" show ?thesis by (simp add: slices_stop)
  next
    case False
    with "1.prems" have ih: "length (slices n (drop n xs)) = (length (drop n xs) + n - 1) div n"
      using "1.IH" by simp
    have st: "length (slices n xs) = Suc (length (slices n (drop n xs)))"
      using False "1.prems" by (simp add: slices_step)
    show ?thesis
    proof (cases "length xs \<le> n")
      case True
      from False have pos: "0 < length xs" by simp
      have "(length xs + n - 1) div n = 1"
      proof (rule div_nat_eqI)
        show "n * 1 \<le> length xs + n - 1" using pos by arith
        show "length xs + n - 1 < n * Suc 1" using pos True "1.prems" by arith
      qed
      moreover from True have "slices n (drop n xs) = []" by (simp add: slices_stop)
      ultimately show ?thesis using st by simp
    next
      case gt: False
      then have "length xs + n - 1 = (length xs - n + n - 1) + n" using "1.prems" by arith
      then have "(length xs + n - 1) div n = ((length xs - n + n - 1) + n) div n"
        by (rule arg_cong)
      also have "\<dots> = Suc ((length xs - n + n - 1) div n)"
        using "1.prems" by (simp only: div_add_self2)
      finally have "(length xs + n - 1) div n = Suc (length (slices n (drop n xs)))"
        using ih by simp
      with st show ?thesis by simp
    qed
  qed
qed

lemma ceiling_nat_div:
  assumes "0 < (n::nat)"
  shows "\<lceil>real m / real n\<rceil> = int ((m + n - 1) div n)"
proof -
  define q where "q = (m + n - 1) div n"
  have lo: "q * n \<le> m + n - 1"
    unfolding q_def by simp
  have hi: "m + n - 1 < q * n + n"
    unfolding q_def using assms dividend_less_div_times [of n "m + n - 1"] by (simp add: ac_simps)
  from hi assms have up: "m \<le> q * n" by arith
  from lo assms have dn: "q * n < m + n" by arith
  from up have "real m \<le> real (q * n)" by (simp only: of_nat_le_iff)
  then have a: "real m / real n \<le> real q"
    using assms by (simp add: field_simps)
  from dn have "real (q * n) < real (m + n)" by (simp only: of_nat_less_iff)
  then have b: "real q - 1 < real m / real n"
    using assms by (simp add: field_simps)
  have "\<lceil>real m / real n\<rceil> = int q"
    by (rule ceiling_unique) (use a b in simp_all)
  then show ?thesis by (simp add: q_def)
qed

lemma send_all_sent_prefix: "prefix (snd (send_all send cs)) cs"
  by (induction cs) (auto split: sum.splits prod.splits)

lemma send_all_sent_subset: "set (snd (send_all send cs)) \<subseteq> set cs"
  using send_all_sent_prefix [of send cs] by (rule set_mono_prefix)

lemma send_all_success:
  "send_all send cs = (Inr rs, sent) \<Longrightarrow> sent = cs \<and> length rs = length cs"
  by (induction cs arbitrary: rs sent) (auto split: sum.splits prod.splits)

text \<open>
  C1. For every list of documents and every positive batch size, the batching
  operations split the documents into exactly \<open>\<lceil>n / batch_size\<rceil>\<close> contiguous batches
  whose concatenation is the original list in order, each batch holding at least one
  and at most \<open>batch_size\<close> documents; the operations send exactly these batches, and
  when every request succeeds they return one response per batch.
\<close>

theorem batch_partition:
  assumes "0 < batch_size"
  shows "\<exists>chunks. batch documents batch_size = Some chunks
           \<and> int (length chunks) = \<lceil>real (length documents) / real batch_size\<rceil>
           \<and> concat chunks = documents
           \<and> (\<forall>c\<in>set chunks. c \<noteq> [] \<and> length c \<le> batch_size)
           \<and> documents_in_batches send documents batch_size = Some (send_all send chunks)
           \<and> documents_from_file_in_batches send (Inr documents) batch_size
                = Some (send_all send chunks)
           \<and> (\<forall>rs sent. send_all send chunks = (Inr rs, sent) \<longrightarrow>
                 sent = chunks \<and> length rs = length chunks)"
proof -
  let ?chunks = "slices batch_size documents"
  have 1: "batch documents batch_size = Some ?chunks"
    using assms by (simp add: batch_def)
  have 2: "int (length ?chunks) = \<lceil>real (length documents) / real batch_size\<rceil>"
    using assms by (simp add: length_slices ceiling_nat_div)
  have 3: "concat ?chunks = documents"
    using assms by (rule concat_slices)
  have 4: "\<forall>c\<in>set ?chunks. c \<noteq> [] \<and> length c \<le> batch_size"
    using slices_bounded by blast
  have 5: "documents_in_batches send documents batch_size = Some (send_all send ?chunks)"
    using 1 by (simp add: documents_in_batches_def)
  have 6: "documents_from_file_in_batches send (Inr documents) batch_size
             = Some (send_all send ?chunks)"
    using 5 by (simp add: documents_from_file_in_batches_def)
  have 7: "\<forall>rs sent. send_all send ?chunks = (Inr rs, sent) \<longrightarrow>
             sent = ?chunks \<and> length rs = length ?chunks"
    using send_all_success by blast
  from 1 2 3 4 5 6 7 show ?thesis by blast
qed

theorem batch_partition_witness:
  "batch [1, 2, 3, 4, 5, 6, 7 :: nat] 3 = Some [[1, 2, 3], [4, 5, 6], [7]]
   \<and> \<lceil>real (length [1, 2, 3, 4, 5, 6, 7 :: nat]) / real (3 :: nat)\<rceil> = 3
   \<and> documents_in_batches (\<lambda>c. Inr (length c)) [1, 2, 3, 4, 5, 6, 7 :: nat] 3
       = Some (Inr [3, 3, 1], [[1, 2, 3], [4, 5, 6], [7]])"
proof -
  have pos: "0 < (3 :: nat)" by simp
  have sl: "slices 3 [1, 2, 3, 4, 5, 6, 7 :: nat] = [[1, 2, 3], [4, 5, 6], [7]]"
    by code_simp
  from batch_partition [OF pos, of "[1, 2, 3, 4, 5, 6, 7 :: nat]" "\<lambda>c. Inr (length c)"]
  obtain chunks where c: "batch [1, 2, 3, 4, 5, 6, 7 :: nat] 3 = Some chunks"
    and l: "int (length chunks) = \<lceil>real (length [1, 2, 3, 4, 5, 6, 7 :: nat]) / real (3 :: nat)\<rceil>"
    and d: "documents_in_batches (\<lambda>c. Inr (length c)) [1, 2, 3, 4, 5, 6, 7 :: nat] 3
              = Some (send_all (\<lambda>c. Inr (length c)) chunks)"
    by blast
  from c sl have eq: "chunks = [[1, 2, 3], [4, 5, 6], [7]]" by (simp add: batch_def)
  from c l d show ?thesis unfolding eq by simp
qed

lemma auto_batch_from_bounded:
  assumes "auto_batch_from ssize m cur ds = Inr chunks"
    and "cur = [] \<or> ssize cur \<le> m"
    and "c \<in> set chunks"
  shows "c \<noteq> [] \<and> ssize c \<le> m"
  using assms
proof (induction ssize m cur ds arbitrary: chunks rule: auto_batch_from.induct)
  case (1 ssize m cur)
  then show ?case by (auto split: if_splits)
next
  case (2 ssize m cur d ds)
  from "2.prems"(1) have small: "ssize [d] \<le> m"
    by (simp split: if_splits)
  show ?case
  proof (cases "cur = [] \<or> ssize (cur @ [d]) \<le> m")
    case True
    with "2.prems"(1) small
    have run: "auto_batch_from ssize m (cur @ [d]) ds = Inr chunks" by simp
    from True small have inv: "cur @ [d] = [] \<or> ssize (cur @ [d]) \<le> m" by auto
    from "2.IH"(1) [OF _ True run inv "2.prems"(3)] small show ?thesis by simp
  next
    case False
    with "2.prems"(1) small obtain rest
      where run: "auto_batch_from ssize m [d] ds = Inr rest" and chunks: "chunks = cur # rest"
      by (auto split: sum.splits)
    from "2.prems"(3) chunks have "c = cur \<or> c \<in> set rest" by simp
    then show ?thesis
    proof
      assume "c = cur"
      with False "2.prems"(2) show ?thesis by simp
    next
      assume "c \<in> set rest"
      moreover from small have "[d] = [] \<or> ssize [d] \<le> m" by simp
      ultimately show ?thesis
        using "2.IH"(2) [OF _ False run] small by simp
    qed
  qed
qed

lemma auto_batch_from_concat:
  "auto_batch_from ssize m cur ds = Inr chunks \<Longrightarrow> concat chunks = cur @ ds"
proof (induction ssize m cur ds arbitrary: chunks rule: auto_batch_from.induct)
  case (1 ssize m cur)
  then show ?case by (auto split: if_splits)
next
  case (2 ssize m cur d ds)
  then show ?case by (auto split: if_splits sum.splits)
qed


lemma auto_batch_from_error:
  "auto_batch_from ssize m cur ds = Inl e \<Longrightarrow> e = PayloadTooLarge \<and> (\<exists>d\<in>set ds. m < ssize [d])"
proof (induction ssize m cur ds rule: auto_batch_from.induct)
  case (1 ssize m cur)
  then show ?case by simp
next
  case (2 ssize m cur x ds)
  then show ?case by (auto split: sum.splits if_splits)
qed

text \<open>
  C2. For every list of documents and every size bound, every chunk that the
  auto-batching operations produce, and so every chunk they send, has a serialized
  size not exceeding the bound, unless the chunk holds exactly one item.
\<close>

theorem auto_batch_bounded:
  "(\<forall>chunks. auto_batch ssize documents max_payload_size = Inr chunks \<longrightarrow>
      (\<forall>c\<in>set chunks. ssize c \<le> max_payload_size \<or> length c = 1))
   \<and> (\<forall>c\<in>set (snd (documents_auto_batch ssize send documents max_payload_size)).
         ssize c \<le> max_payload_size \<or> length c = 1)
   \<and> (\<forall>c\<in>set (snd (documents_from_file_auto_batch ssize send (Inr documents) max_payload_size)).
         ssize c \<le> max_payload_size \<or> length c = 1)"
proof -
  have a: "ssize c \<le> max_payload_size"
    if "auto_batch ssize documents max_payload_size = Inr chunks" and "c \<in> set chunks"
    for chunks c
    using auto_batch_from_bounded [of ssize max_payload_size "[]" documents chunks c] that
    by (simp add: auto_batch_def)
  have b: "ssize c \<le> max_payload_size"
    if "c \<in> set (snd (documents_auto_batch ssize send documents max_payload_size))" for c
  proof (cases "auto_batch ssize documents max_payload_size")
    case (Inl e)
    with that show ?thesis by (simp add: documents_auto_batch_def)
  next
    case (Inr chunks)
    with that have "c \<in> set (snd (send_all send chunks))"
      by (simp add: documents_auto_batch_def)
    with send_all_sent_subset have "c \<in> set chunks" by blast
    with Inr show ?thesis by (rule a)
  qed
  have c: "documents_from_file_auto_batch ssize send (Inr documents) max_payload_size
             = documents_auto_batch ssize send documents max_payload_size"
    by (simp add: documents_from_file_auto_batch_def)
  from a b show ?thesis unfolding c by blast
qed

theorem auto_batch_bounded_witness:
  "auto_batch (\<lambda>c. 2 + sum_list (map length c) + 2 * (length c - 1))
     [''aaaa'', ''bb'', ''cccccc'', ''d'', ''e''] 10
     = Inr [[''aaaa'', ''bb''], [''cccccc''], [''d'', ''e'']]
   \<and> list_all (\<lambda>c. 2 + sum_list (map length c) + 2 * (length c - 1) \<le> 10 \<or> length c = 1)
       [[''aaaa'', ''bb''], [''cccccc''], [''d'', ''e'']]"
proof -
  let ?ssize = "\<lambda>c :: string list. 2 + sum_list (map length c) + 2 * (length c - 1)"
  have run: "auto_batch ?ssize [''aaaa'', ''bb'', ''cccccc'', ''d'', ''e''] 10
               = Inr [[''aaaa'', ''bb''], [''cccccc''], [''d'', ''e'']]"
    by (simp add: auto_batch_def)
  from auto_batch_bounded [of ?ssize "[''aaaa'', ''bb'', ''cccccc'', ''d'', ''e'']" 10] run
  have "\<forall>c\<in>set [[''aaaa'', ''bb''], [''cccccc''], [''d'', ''e'']]. ?ssize c \<le> 10 \<or> length c = 1"
    by blast
  then have "list_all (\<lambda>c. ?ssize c \<le> 10 \<or> length c = 1)
       [[''aaaa'', ''bb''], [''cccccc''], [''d'', ''e'']]"
    by (simp only: list_all_iff)
  with run show ?thesis by simp
qed



end
